theory Spec2Isabelle
  imports Main "HOL-Library.AList"
begin

section \<open>Scorelist routes: data model\<close>

text \<open>
  The development embeds \<^verbatim>\<open>app/routes/scorelist_routes.js\<close>: the five route
  handlers of the \<^verbatim>\<open>scorelists\<close> resource and the ranking computed by the
  INDEX handler.
\<close>

type_synonym oid = nat

text \<open>JSON values as far as the handlers look at them. \<open>JId\<close> stands for the
  textual form of an object id (\<^verbatim>\<open>req.user.id\<close>).\<close>

datatype jval = JNull | JNum int | JStr string | JId oid

text \<open>A JSON object such as \<^verbatim>\<open>req.body.scorelist\<close>: its keys with their values;
  \<open>map_of\<close> reads a property, \<open>AList.update\<close> sets one, \<open>AList.delete\<close> is
  \<^verbatim>\<open>delete\<close>.\<close>

type_synonym payload = "(string \<times> jval) list"

text \<open>Modelled from the spec: the schema of \<^verbatim>\<open>app/models/scorelist\<close>, which
  the routes file requires and which is not among the sources. A score record has an
  id assigned by the store, an owner, a numeric score and further caller-supplied
  attributes. Scores are taken as integers.\<close>

record scorelist =
  oid :: oid
  owner :: oid
  score :: int
  others :: payload

text \<open>The plain object \<^verbatim>\<open>scorelist.toObject()\<close>; the INDEX handler adds the
  property \<^verbatim>\<open>placement\<close> to it.\<close>

record pojo =
  doc :: scorelist
  placement :: "nat option"

definition toObject :: "scorelist \<Rightarrow> pojo" where
  "toObject d = \<lparr>doc = d, placement = None\<rparr>"

datatype store_op = OpFind | OpFindById | OpCreate | OpUpdateOne | OpDeleteOne

datatype error =
    TypeError
  | NotFound
  | Forbidden
  | ValidationError
  | StoreError store_op

section \<open>The ranking of the INDEX handler\<close>

text \<open>\<^verbatim>\<open>arr.splice(start, count)\<close> removes \<open>count\<close> elements from \<open>start\<close> on and
  returns them; the second component is what is left in \<open>arr\<close>.\<close>

definition splice :: "nat \<Rightarrow> nat \<Rightarrow> 'a list \<Rightarrow> 'a list \<times> 'a list" where
  "splice start count xs =
     (take count (drop start xs), take start xs @ drop (start + count) xs)"

text \<open>\<^verbatim>\<open>Array.prototype.sort(cmp)\<close>: the elements in an order consistent with the
  comparator, elements that compare equal keeping their relative order (the sort is
  stable). \<open>cmp a b \<le> 0\<close> keeps \<open>a\<close> in front of \<open>b\<close>.\<close>

fun place_by :: "('a \<Rightarrow> 'a \<Rightarrow> int) \<Rightarrow> 'a \<Rightarrow> 'a list \<Rightarrow> 'a list" where
  "place_by cmp a [] = [a]"
| "place_by cmp a (b # bs) =
     (if cmp a b \<le> 0 then a # b # bs else b # place_by cmp a bs)"

definition js_sort :: "('a \<Rightarrow> 'a \<Rightarrow> int) \<Rightarrow> 'a list \<Rightarrow> 'a list" where
  "js_sort cmp xs = foldr (place_by cmp) xs []"

text \<open>\<^verbatim>\<open>function (a, b) { return a.score - b.score }\<close>\<close>

definition by_score :: "pojo \<Rightarrow> pojo \<Rightarrow> int" where
  "by_score a b = score (doc a) - score (doc b)"

text \<open>\<^verbatim>\<open>for (let i = 0; i < 10; i++) { let j = i + 1; scorelists[i].placement = j }\<close>
  Beyond the end of the array \<^verbatim>\<open>scorelists[i]\<close> is \<^verbatim>\<open>undefined\<close>, and setting a
  property of \<^verbatim>\<open>undefined\<close> throws a TypeError.\<close>

function assign_placements :: "nat \<Rightarrow> pojo list \<Rightarrow> error + pojo list" where
  "assign_placements i scorelists =
     (if i < 10 then
        (let j = i + 1 in
         if i < length scorelists
         then assign_placements (i + 1)
                (scorelists[i := (scorelists ! i)\<lparr>placement := Some j\<rparr>])
         else Inl TypeError)
      else Inr scorelists)"
  by pat_completeness auto
termination
  by (relation "measure (\<lambda>(i, scorelists). 10 - i)") auto

declare assign_placements.simps [simp del]

text \<open>The body of the second \<^verbatim>\<open>.then\<close> of the INDEX handler, up to the response:
  truncate, sort, assign placements.\<close>

definition rank_scorelists :: "pojo list \<Rightarrow> error + pojo list" where
  "rank_scorelists scorelists =
     (let scorelists1 = (if length scorelists > 10
                         then fst (splice 0 10 scorelists) else scorelists);
          scorelists2 = js_sort by_score scorelists1
      in assign_placements 0 scorelists2)"

section \<open>The persistence store\<close>

text \<open>What the handlers hand to the store, in the order they issue it.\<close>

datatype store_call =
    CallFind
  | CallFindById oid
  | CallCreate payload
  | CallUpdateOne oid payload
  | CallDeleteOne oid

text \<open>Modelled from the spec: the Persistence Store behind the model
  \<^verbatim>\<open>Scorelist\<close> (the ORM and \<^verbatim>\<open>app/models/scorelist\<close> are not among the
  sources). It holds the score records in the order it returns them, assigns ids on
  creation, and exposes find-all, find-by-id, create, update and delete. Any of the
  five operations may fail (those listed in \<open>failing\<close> do); \<open>calls\<close> records every
  call the handlers issue.\<close>

record store =
  docs :: "scorelist list"
  next_oid :: oid
  failing :: "store_op list"
  calls :: "store_call list"

definition issue :: "store_call \<Rightarrow> store \<Rightarrow> store" where
  "issue c st = st\<lparr>calls := calls st @ [c]\<rparr>"

text \<open>Modelled from the spec: find-all, \<^verbatim>\<open>Scorelist.find()\<close>. It resolves to the
  records in store order.\<close>

definition Scorelist_find :: "store \<Rightarrow> (error + scorelist list) \<times> store" where
  "Scorelist_find st =
     (if OpFind \<in> set (failing st) then Inl (StoreError OpFind) else Inr (docs st),
      issue CallFind st)"

text \<open>Modelled from the spec: find-by-id, \<^verbatim>\<open>Scorelist.findById(id)\<close>. It resolves
  to the record with that id, or to none.\<close>

definition Scorelist_findById :: "oid \<Rightarrow> store \<Rightarrow> (error + scorelist option) \<times> store" where
  "Scorelist_findById i st =
     (if OpFindById \<in> set (failing st) then Inl (StoreError OpFindById)
      else Inr (find (\<lambda>d. oid d = i) (docs st)),
      issue (CallFindById i) st)"

text \<open>Modelled from the spec: creation by the store, with the schema of
  \<^verbatim>\<open>app/models/scorelist\<close> (not among the sources). The payload is cast to the
  schema: an owner id and a numeric score are required, every other field is kept as
  it is, and the store assigns the id.\<close>

definition cast_new :: "oid \<Rightarrow> payload \<Rightarrow> scorelist option" where
  "cast_new i p =
     (case map_of p ''owner'' of
        Some (JId ow) \<Rightarrow>
          (case map_of p ''score'' of
             Some (JNum sc) \<Rightarrow>
               Some \<lparr>oid = i, owner = ow, score = sc,
                     others = AList.delete ''owner'' (AList.delete ''score'' p)\<rparr>
           | _ \<Rightarrow> None)
      | _ \<Rightarrow> None)"

text \<open>Modelled from the spec: create, \<^verbatim>\<open>Scorelist.create(payload)\<close>. It resolves to
  the new record, stored after the others, or rejects the payload.\<close>

definition Scorelist_create :: "payload \<Rightarrow> store \<Rightarrow> (error + scorelist) \<times> store" where
  "Scorelist_create p st =
     (let st1 = issue (CallCreate p) st in
      if OpCreate \<in> set (failing st) then (Inl (StoreError OpCreate), st1)
      else (case cast_new (next_oid st) p of
              None \<Rightarrow> (Inl ValidationError, st1)
            | Some d \<Rightarrow> (Inr d, st1\<lparr>docs := docs st @ [d], next_oid := Suc (next_oid st)\<rparr>)))"

text \<open>Modelled from the spec: the partial update by the store (the ORM is not among
  the sources). An update sets the fields the payload carries and leaves the others:
  an \<^verbatim>\<open>owner\<close> or \<^verbatim>\<open>score\<close> key overwrites that field (and must cast to it),
  any other key overwrites or adds an attribute.\<close>

definition castable :: "payload \<Rightarrow> bool" where
  "castable p =
     ((case map_of p ''owner'' of
         None \<Rightarrow> True | Some (JId ow) \<Rightarrow> True | Some _ \<Rightarrow> False) \<and>
      (case map_of p ''score'' of
         None \<Rightarrow> True | Some (JNum sc) \<Rightarrow> True | Some _ \<Rightarrow> False))"

text \<open>Modelled from the spec: the record after an update with a payload that casts.\<close>

definition patch_doc :: "payload \<Rightarrow> scorelist \<Rightarrow> scorelist" where
  "patch_doc p d =
     d\<lparr>owner := (case map_of p ''owner'' of Some (JId ow) \<Rightarrow> ow | _ \<Rightarrow> owner d),
       score := (case map_of p ''score'' of Some (JNum sc) \<Rightarrow> sc | _ \<Rightarrow> score d),
       others := AList.merge (others d)
                   (AList.delete ''owner'' (AList.delete ''score'' p))\<rparr>"

text \<open>Modelled from the spec: update, \<^verbatim>\<open>scorelist.updateOne(payload)\<close> on a fetched
  document. The stored record with that document's id is patched.\<close>

definition updateOne :: "scorelist \<Rightarrow> payload \<Rightarrow> store \<Rightarrow> (error + unit) \<times> store" where
  "updateOne d p st =
     (let st1 = issue (CallUpdateOne (oid d) p) st in
      if OpUpdateOne \<in> set (failing st) then (Inl (StoreError OpUpdateOne), st1)
      else if \<not> castable p then (Inl ValidationError, st1)
      else (Inr (),
            st1\<lparr>docs := map (\<lambda>x. if oid x = oid d then patch_doc p x else x) (docs st)\<rparr>))"

text \<open>Modelled from the spec: delete, \<^verbatim>\<open>scorelist.deleteOne()\<close> on a fetched
  document. The stored record with that document's id is removed.\<close>

definition deleteOne :: "scorelist \<Rightarrow> store \<Rightarrow> (error + unit) \<times> store" where
  "deleteOne d st =
     (let st1 = issue (CallDeleteOne (oid d)) st in
      if OpDeleteOne \<in> set (failing st) then (Inl (StoreError OpDeleteOne), st1)
      else (Inr (), st1\<lparr>docs := filter (\<lambda>x. oid x \<noteq> oid d) (docs st)\<rparr>))"

section \<open>Requests, responses and the guards\<close>

text \<open>\<open>token\<close> is the bearer credential of the request, \<open>user\<close> is \<^verbatim>\<open>req.user\<close>
  (set by \<^verbatim>\<open>requireToken\<close>), \<open>params_id\<close> is \<^verbatim>\<open>req.params.id\<close> and \<open>body\<close> is
  \<^verbatim>\<open>req.body.scorelist\<close>, \<open>None\<close> when the body has no such key.\<close>

record request =
  token :: "string option"
  user :: "oid option"
  params_id :: oid
  body :: "payload option"

datatype resbody = ScorelistsBody "pojo list" | ScorelistBody pojo

text \<open>How a request ends: \<^verbatim>\<open>res.status(n).json(b)\<close>, \<^verbatim>\<open>res.sendStatus(n)\<close>,
  \<^verbatim>\<open>next(err)\<close> from a \<^verbatim>\<open>.catch(next)\<close>, or an exception thrown by the handler
  before it returns, which the framework passes to the error handler as well.\<close>

datatype response =
    Json nat resbody
  | SendStatus nat
  | Next error
  | Threw error

fun to_error_handler :: "response \<Rightarrow> error option" where
  "to_error_handler (Next e) = Some e"
| "to_error_handler (Threw e) = Some e"
| "to_error_handler _ = None"

text \<open>\<^verbatim>\<open>promise.then(f)\<close> on a settled promise: a rejection skips \<open>f\<close>.\<close>

definition pthen :: "error + 'a \<Rightarrow> ('a \<Rightarrow> error + 'b) \<Rightarrow> error + 'b" where
  "pthen p f = (case p of Inl e \<Rightarrow> Inl e | Inr v \<Rightarrow> f v)"

text \<open>Modelled from the spec: \<^verbatim>\<open>handle404\<close> of \<^verbatim>\<open>lib/custom_errors\<close>, which is
  not among the sources. It fails with NotFound when the looked-up record is absent
  and passes the record on otherwise.\<close>

definition handle404 :: "scorelist option \<Rightarrow> error + scorelist" where
  "handle404 record = (case record of None \<Rightarrow> Inl NotFound | Some r \<Rightarrow> Inr r)"

text \<open>Modelled from the spec: \<^verbatim>\<open>requireOwnership\<close> of \<^verbatim>\<open>lib/custom_errors\<close>,
  which is not among the sources. It fails with Forbidden when the record's owner is
  not the caller's id.\<close>

definition requireOwnership :: "request \<Rightarrow> scorelist \<Rightarrow> error + unit" where
  "requireOwnership req resource =
     (if user req \<noteq> Some (owner resource) then Inl Forbidden else Inr ())"

text \<open>Modelled from the spec: what the middleware \<^verbatim>\<open>lib/remove_blank_fields\<close>,
  which is not among the sources, does to an object. It removes the fields whose value
  is the empty string.\<close>

definition remove_blank_fields :: "payload \<Rightarrow> payload" where
  "remove_blank_fields p = filter (\<lambda>(k, v). v \<noteq> JStr []) p"

text \<open>Modelled from the spec: the middleware applied to the envelope of the request
  body.\<close>

definition removeBlanks :: "request \<Rightarrow> request" where
  "removeBlanks req = req\<lparr>body := map_option remove_blank_fields (body req)\<rparr>"

text \<open>\<^verbatim>\<open>passport.authenticate('bearer', { session: false })\<close>: the auth provider
  resolves a valid token to a user; without one the request is answered 401 and the
  route is not reached.\<close>

type_synonym auth = "string \<rightharpoonup> oid"

definition requireToken :: "auth \<Rightarrow> request \<Rightarrow> response + request" where
  "requireToken au req =
     (case token req of
        None \<Rightarrow> Inl (SendStatus 401)
      | Some t \<Rightarrow>
          (case au t of
             None \<Rightarrow> Inl (SendStatus 401)
           | Some u \<Rightarrow> Inr (req\<lparr>user := Some u\<rparr>)))"

section \<open>The route handlers\<close>

text \<open>INDEX, \<^verbatim>\<open>GET /scorelists\<close>. A TypeError thrown inside the \<^verbatim>\<open>.then\<close> rejects
  the chain and reaches \<^verbatim>\<open>.catch(next)\<close>.\<close>

definition index_handler :: "request \<Rightarrow> store \<Rightarrow> response \<times> store" where
  "index_handler req st =
     (case Scorelist_find st of
        (found, st1) \<Rightarrow>
          (case pthen (pthen found (\<lambda>scorelists. Inr (map toObject scorelists)))
                  rank_scorelists of
             Inr scorelists \<Rightarrow> (Json 200 (ScorelistsBody scorelists), st1)
           | Inl e \<Rightarrow> (Next e, st1)))"

text \<open>SHOW, \<^verbatim>\<open>GET /scorelists/:id\<close>.\<close>

definition show_handler :: "request \<Rightarrow> store \<Rightarrow> response \<times> store" where
  "show_handler req st =
     (case Scorelist_findById (params_id req) st of
        (found, st1) \<Rightarrow>
          (case pthen found handle404 of
             Inr scorelist \<Rightarrow> (Json 200 (ScorelistBody (toObject scorelist)), st1)
           | Inl e \<Rightarrow> (Next e, st1)))"

text \<open>CREATE, \<^verbatim>\<open>POST /scorelists\<close>. The assignment
  \<^verbatim>\<open>req.body.scorelist.owner = req.user.id\<close> throws a TypeError when
  \<^verbatim>\<open>req.body.scorelist\<close> or \<^verbatim>\<open>req.user\<close> is undefined, before the store is
  called. The \<^verbatim>\<open>console.log\<close> between the two statements touches neither the
  response nor the store.\<close>

definition create_handler :: "request \<Rightarrow> store \<Rightarrow> response \<times> store" where
  "create_handler req st =
     (case body req of
        None \<Rightarrow> (Threw TypeError, st)
      | Some scorelist \<Rightarrow>
          (case user req of
             None \<Rightarrow> (Threw TypeError, st)
           | Some u \<Rightarrow>
               (case Scorelist_create (AList.update ''owner'' (JId u) scorelist) st of
                  (Inr created, st1) \<Rightarrow> (Json 201 (ScorelistBody (toObject created)), st1)
                | (Inl e, st1) \<Rightarrow> (Next e, st1))))"

text \<open>UPDATE, \<^verbatim>\<open>PATCH /scorelists/:id\<close>. \<^verbatim>\<open>delete req.body.scorelist.owner\<close>
  throws a TypeError when \<^verbatim>\<open>req.body.scorelist\<close> is undefined. The promise of
  \<^verbatim>\<open>updateOne\<close> is returned into the chain, so its rejection reaches
  \<^verbatim>\<open>.catch(next)\<close>.\<close>

definition update_handler :: "request \<Rightarrow> store \<Rightarrow> response \<times> store" where
  "update_handler req st =
     (case body req of
        None \<Rightarrow> (Threw TypeError, st)
      | Some scorelist0 \<Rightarrow>
          (let payload = AList.delete ''owner'' scorelist0 in
           case Scorelist_findById (params_id req) st of
             (found, st1) \<Rightarrow>
               (case pthen found handle404 of
                  Inl e \<Rightarrow> (Next e, st1)
                | Inr scorelist \<Rightarrow>
                    (case requireOwnership req scorelist of
                       Inl e \<Rightarrow> (Next e, st1)
                     | Inr _ \<Rightarrow>
                         (case updateOne scorelist payload st1 of
                            (Inl e, st2) \<Rightarrow> (Next e, st2)
                          | (Inr _, st2) \<Rightarrow> (SendStatus 204, st2))))))"

text \<open>DESTROY, \<^verbatim>\<open>DELETE /scorelists/:id\<close>. The callback calls
  \<^verbatim>\<open>scorelist.deleteOne()\<close> without returning its promise: the chain goes on to
  \<^verbatim>\<open>res.sendStatus(204)\<close> whatever the outcome of the deletion.\<close>

definition destroy_handler :: "request \<Rightarrow> store \<Rightarrow> response \<times> store" where
  "destroy_handler req st =
     (case Scorelist_findById (params_id req) st of
        (found, st1) \<Rightarrow>
          (case pthen found handle404 of
             Inl e \<Rightarrow> (Next e, st1)
           | Inr scorelist \<Rightarrow>
               (case requireOwnership req scorelist of
                  Inl e \<Rightarrow> (Next e, st1)
                | Inr _ \<Rightarrow>
                    (case deleteOne scorelist st1 of
                       (outcome, st2) \<Rightarrow> (SendStatus 204, st2)))))"

section \<open>The router\<close>

datatype route =
    GET_scorelists
  | GET_scorelists_id
  | POST_scorelists
  | PATCH_scorelists_id
  | DELETE_scorelists_id

datatype middleware = RequireToken | RemoveBlanks

text \<open>The middleware each \<^verbatim>\<open>router.<verb>\<close> registers in front of its handler.\<close>

fun registered :: "route \<Rightarrow> middleware list" where
  "registered GET_scorelists = []"
| "registered GET_scorelists_id = [RequireToken]"
| "registered POST_scorelists = [RequireToken]"
| "registered PATCH_scorelists_id = [RequireToken, RemoveBlanks]"
| "registered DELETE_scorelists_id = [RequireToken]"

fun handler :: "route \<Rightarrow> request \<Rightarrow> store \<Rightarrow> response \<times> store" where
  "handler GET_scorelists = index_handler"
| "handler GET_scorelists_id = show_handler"
| "handler POST_scorelists = create_handler"
| "handler PATCH_scorelists_id = update_handler"
| "handler DELETE_scorelists_id = destroy_handler"

fun run_middleware :: "auth \<Rightarrow> middleware \<Rightarrow> request \<Rightarrow> response + request" where
  "run_middleware au RequireToken req = requireToken au req"
| "run_middleware au RemoveBlanks req = Inr (removeBlanks req)"

fun run_stack :: "auth \<Rightarrow> middleware list \<Rightarrow> request \<Rightarrow> response + request" where
  "run_stack au [] req = Inr req"
| "run_stack au (m # ms) req =
     (case run_middleware au m req of
        Inl resp \<Rightarrow> Inl resp
      | Inr req1 \<Rightarrow> run_stack au ms req1)"

definition router :: "auth \<Rightarrow> route \<Rightarrow> request \<Rightarrow> store \<Rightarrow> response \<times> store" where
  "router au r req st =
     (case run_stack au (registered r) req of
        Inl resp \<Rightarrow> (resp, st)
      | Inr req1 \<Rightarrow> handler r req1 st)"

text \<open>The calls a handler issued: what \<open>calls\<close> gained between two store states.\<close>

definition issued :: "store \<Rightarrow> store \<Rightarrow> store_call list" where
  "issued st st1 = drop (length (calls st)) (calls st1)"

fun is_write :: "store_call \<Rightarrow> bool" where
  "is_write (CallCreate p) = True"
| "is_write (CallUpdateOne i p) = True"
| "is_write (CallDeleteOne i) = True"
| "is_write _ = False"

section \<open>Sample data\<close>

definition new_doc :: "oid \<Rightarrow> oid \<Rightarrow> int \<Rightarrow> scorelist" where
  "new_doc i ow sc = \<lparr>oid = i, owner = ow, score = sc, others = []\<rparr>"

definition store_of :: "scorelist list \<Rightarrow> store" where
  "store_of ds = \<lparr>docs = ds, next_oid = length ds, failing = [], calls = []\<rparr>"

definition anonymous :: request where
  "anonymous = \<lparr>token = None, user = None, params_id = 0, body = None\<rparr>"

definition ranked :: "scorelist \<Rightarrow> nat \<Rightarrow> pojo" where
  "ranked d k = \<lparr>doc = d, placement = Some k\<rparr>"

text \<open>Eleven records in descending order of score; the best score comes last.\<close>

definition descending11 :: "scorelist list" where
  "descending11 =
     [new_doc 0 1 20, new_doc 1 1 19, new_doc 2 1 18, new_doc 3 1 17, new_doc 4 1 16,
      new_doc 5 1 15, new_doc 6 1 14, new_doc 7 1 13, new_doc 8 1 12, new_doc 9 1 11,
      new_doc 10 1 10]"

text \<open>The ten records of \<open>descending11\<close> that the INDEX handler returns.\<close>

definition leaderboard11 :: "pojo list" where
  "leaderboard11 =
     [ranked (new_doc 9 1 11) 1, ranked (new_doc 8 1 12) 2, ranked (new_doc 7 1 13) 3,
      ranked (new_doc 6 1 14) 4, ranked (new_doc 5 1 15) 5, ranked (new_doc 4 1 16) 6,
      ranked (new_doc 3 1 17) 7, ranked (new_doc 2 1 18) 8, ranked (new_doc 1 1 19) 9,
      ranked (new_doc 0 1 20) 10]"

definition three_docs :: "scorelist list" where
  "three_docs = [new_doc 0 1 7, new_doc 1 1 5, new_doc 2 2 9]"

text \<open>Two users with their tokens, a store with one record of the first user, and
  requests by holders of a token.\<close>

definition sample_auth :: auth where
  "sample_auth = [''token-alice'' \<mapsto> 1, ''token-bob'' \<mapsto> 2]"

definition alices_store :: store where
  "alices_store = \<lparr>docs = [new_doc 7 1 42], next_oid = 8, failing = [], calls = []\<rparr>"

definition request_of :: "string \<Rightarrow> oid \<Rightarrow> payload option \<Rightarrow> request" where
  "request_of t i b = \<lparr>token = Some t, user = None, params_id = i, body = b\<rparr>"

definition authenticated :: "oid \<Rightarrow> oid \<Rightarrow> payload option \<Rightarrow> request" where
  "authenticated u i b = \<lparr>token = None, user = Some u, params_id = i, body = b\<rparr>"

definition failing_store :: "store_op \<Rightarrow> store" where
  "failing_store op = \<lparr>docs = [new_doc 7 1 42], next_oid = 8, failing = [op], calls = []\<rparr>"

text \<open>An update payload that names another owner, and the store after the first
  user's update with it: one lookup, one update without the \<^verbatim>\<open>owner\<close> key.\<close>

definition owner_change :: payload where
  "owner_change = [(''owner'', JId 2), (''score'', JNum 5)]"

definition patched_store :: store where
  "patched_store =
     \<lparr>docs = [new_doc 7 1 5], next_oid = 8, failing = [],
      calls = [CallFindById 7, CallUpdateOne 7 [(''score'', JNum 5)]]\<rparr>"

text \<open>The store after a lookup of the record \<open>i\<close> and nothing else.\<close>

definition looked_up_store :: "oid \<Rightarrow> store" where
  "looked_up_store i =
     \<lparr>docs = [new_doc 7 1 42], next_oid = 8, failing = [], calls = [CallFindById i]\<rparr>"

text \<open>The stores after a deletion that failed, after a creation that failed and after
  the first user's creation with the payload \<open>owner_change\<close>.\<close>

definition undeleted_store :: store where
  "undeleted_store =
     \<lparr>docs = [new_doc 7 1 42], next_oid = 8, failing = [OpDeleteOne],
      calls = [CallFindById 7, CallDeleteOne 7]\<rparr>"

definition uncreated_store :: store where
  "uncreated_store =
     \<lparr>docs = [new_doc 7 1 42], next_oid = 8, failing = [OpCreate],
      calls = [CallCreate [(''owner'', JId 1), (''score'', JNum 5)]]\<rparr>"

definition created_store :: store where
  "created_store =
     \<lparr>docs = [new_doc 7 1 42, new_doc 8 1 5], next_oid = 9, failing = [],
      calls = [CallCreate [(''owner'', JId 1), (''score'', JNum 5)]]\<rparr>"

lemmas sample_defs = new_doc_def store_of_def anonymous_def ranked_def descending11_def
  leaderboard11_def three_docs_def

lemmas request_defs = sample_auth_def alices_store_def request_of_def authenticated_def
  failing_store_def owner_change_def patched_store_def looked_up_store_def
  undeleted_store_def uncreated_store_def created_store_def

lemmas store_defs = Scorelist_find_def Scorelist_findById_def Scorelist_create_def
  updateOne_def deleteOne_def issue_def cast_new_def castable_def patch_doc_def

lemmas handler_defs = index_handler_def show_handler_def create_handler_def
  update_handler_def destroy_handler_def pthen_def handle404_def requireOwnership_def
  toObject_def

lemmas router_defs = router_def requireToken_def removeBlanks_def remove_blank_fields_def

section \<open>Ranking: sorting and the placement loop\<close>

lemmas index_defs = index_handler_def Scorelist_find_def pthen_def rank_scorelists_def
  splice_def js_sort_def by_score_def toObject_def assign_placements.simps issue_def

text \<open>With the comparator of the handler, the sort is the stable sort by the key
  \<open>score\<close>.\<close>

lemma place_by_score: "place_by by_score a bs = insort_key (\<lambda>p. score (doc p)) a bs"
  by (induction bs) (simp_all add: by_score_def)

lemma js_sort_by_score: "js_sort by_score xs = sort_key (\<lambda>p. score (doc p)) xs"
  by (induction xs) (simp_all add: js_sort_def place_by_score)

lemma assign_placements_short:
  "length xs < 10 \<Longrightarrow> i \<le> length xs \<Longrightarrow> assign_placements i xs = Inl TypeError"
proof (induction i xs rule: assign_placements.induct)
  case (1 i xs)
  show ?case
  proof (cases "i < length xs")
    case True
    with 1 show ?thesis
      by (subst assign_placements.simps) simp
  next
    case False
    with 1 show ?thesis
      by (subst assign_placements.simps) simp
  qed
qed

lemma assign_placements_full:
  "10 \<le> length xs \<Longrightarrow> i \<le> 10 \<Longrightarrow>
   \<exists>ys. assign_placements i xs = Inr ys \<and> length ys = length xs \<and> map doc ys = map doc xs
     \<and> (\<forall>k<length xs. placement (ys ! k) =
           (if i \<le> k \<and> k < 10 then Some (k + 1) else placement (xs ! k)))"
proof (induction i xs rule: assign_placements.induct)
  case (1 i xs)
  show ?case
  proof (cases "i < 10")
    case False
    then show ?thesis
      by (subst assign_placements.simps) auto
  next
    case True
    let ?xs' = "xs[i := (xs ! i)\<lparr>placement := Some (i + 1)\<rparr>]"
    from True 1(2) have il: "i < length xs" by simp
    have docs: "map doc ?xs' = map doc xs"
      using il by (simp add: map_update list_update_same_conv)
    from 1(1)[OF True refl il] 1(2) True
    obtain ys where ys: "assign_placements (i + 1) ?xs' = Inr ys" "length ys = length xs"
      "map doc ys = map doc ?xs'"
      "\<forall>k<length xs. placement (ys ! k) =
         (if i + 1 \<le> k \<and> k < 10 then Some (k + 1) else placement (?xs' ! k))"
      by auto
    have "assign_placements i xs = Inr ys"
      using True il ys(1) by (subst assign_placements.simps) simp
    moreover have "\<forall>k<length xs. placement (ys ! k) =
        (if i \<le> k \<and> k < 10 then Some (k + 1) else placement (xs ! k))"
      using ys(4) il True by (auto simp: nth_list_update)
    ultimately show ?thesis using ys(2,3) docs by simp
  qed
qed

lemma rank_scorelists_short:
  "length xs < 10 \<Longrightarrow> rank_scorelists xs = Inl TypeError"
  by (simp add: rank_scorelists_def js_sort_by_score assign_placements_short)

lemma rank_scorelists_full:
  assumes "10 \<le> length xs"
  shows "\<exists>lb. rank_scorelists xs = Inr lb \<and> length lb = 10
           \<and> map doc lb = map doc (js_sort by_score (take 10 xs))
           \<and> (\<forall>k<10. placement (lb ! k) = Some (k + 1))"
proof -
  let ?s = "js_sort by_score (take 10 xs)"
  have len: "length ?s = 10"
    using assms by (simp add: js_sort_by_score)
  have eq: "rank_scorelists xs = assign_placements 0 ?s"
    using assms by (cases "length xs = 10") (simp_all add: rank_scorelists_def splice_def)
  from assign_placements_full[of ?s 0] len
  obtain ys where "assign_placements 0 ?s = Inr ys" "length ys = 10" "map doc ys = map doc ?s"
     "\<forall>k<10. placement (ys ! k) = Some (k + 1)"
    by auto
  with eq show ?thesis by auto
qed

lemma index_handler_healthy:
  "OpFind \<notin> set (failing st) \<Longrightarrow>
   index_handler req st =
     (case rank_scorelists (map toObject (docs st)) of
        Inr lb \<Rightarrow> Json 200 (ScorelistsBody lb) | Inl e \<Rightarrow> Next e,
      issue CallFind st)"
  by (simp add: index_handler_def Scorelist_find_def pthen_def split: sum.splits)

lemma index_handler_failing:
  "OpFind \<in> set (failing st) \<Longrightarrow>
   index_handler req st = (Next (StoreError OpFind), issue CallFind st)"
  by (simp add: index_handler_def Scorelist_find_def pthen_def)

lemma index_handler_Json:
  assumes "fst (index_handler req st) = Json 200 (ScorelistsBody lb)"
  shows "OpFind \<notin> set (failing st) \<and> 10 \<le> length (docs st)
         \<and> rank_scorelists (map toObject (docs st)) = Inr lb"
proof -
  have h: "OpFind \<notin> set (failing st)"
    using assms by (auto simp: index_handler_failing)
  have r: "rank_scorelists (map toObject (docs st)) = Inr lb"
    using assms h by (simp add: index_handler_healthy split: sum.splits)
  have "10 \<le> length (docs st)"
  proof (rule ccontr)
    assume "\<not> 10 \<le> length (docs st)"
    then have "rank_scorelists (map toObject (docs st)) = Inl TypeError"
      by (simp add: rank_scorelists_short)
    with r show False by simp
  qed
  with h r show ?thesis by simp
qed

lemma index_eval_descending11:
  "fst (index_handler anonymous (store_of descending11)) =
   Json 200 (ScorelistsBody leaderboard11)"
  by (simp add: index_defs sample_defs)

text \<open>In a list of eleven records in strictly descending order of score, the last
  record has the lowest score and is not among the first ten.\<close>

lemma descending_last_excluded:
  assumes "length ds = 11" and "sorted_wrt (>) (map score ds)"
  shows "last ds \<notin> set (take 10 ds)" and "\<forall>d\<in>set ds. score (last ds) \<le> score d"
proof -
  have l: "last ds = ds ! 10"
    using assms(1) by (cases "ds = []") (simp_all add: last_conv_nth)
  have gt: "\<And>k. k < 10 \<Longrightarrow> score (ds ! 10) < score (ds ! k)"
    using sorted_wrt_nth_less[OF assms(2), of _ 10] assms(1) by simp
  show "last ds \<notin> set (take 10 ds)"
  proof
    assume "last ds \<in> set (take 10 ds)"
    then obtain k where "k < 10" "take 10 ds ! k = ds ! 10"
      using assms(1) l by (auto simp: in_set_conv_nth)
    with gt[of k] show False by simp
  qed
  show "\<forall>d\<in>set ds. score (last ds) \<le> score d"
  proof
    fix d assume "d \<in> set ds"
    then obtain k where k: "k < 11" "ds ! k = d"
      using assms(1) by (auto simp: in_set_conv_nth)
    show "score (last ds) \<le> score d"
    proof (cases "k < 10")
      case True
      with gt[of k] k l show ?thesis by simp
    next
      case False
      with k have "k = 10" by simp
      with k l show ?thesis by simp
    qed
  qed
qed

section \<open>The leaderboard of the list operation\<close>

text \<open>
  Claim C1. When the store returns more than ten records, the INDEX handler keeps the
  first ten in the order the store returned them and sorts only those: the records of
  the leaderboard are the sort of that prefix. Hence, for eleven records in strictly
  descending order of score, the last record, which has the lowest (best) score, is
  not in the leaderboard.
\<close>

theorem index_truncates_before_sorting:
  assumes "OpFind \<notin> set (failing st)" and "10 < length (docs st)"
  shows "\<exists>lb. fst (index_handler req st) = Json 200 (ScorelistsBody lb)
           \<and> map doc lb = map doc (js_sort by_score (map toObject (take 10 (docs st))))
           \<and> (length (docs st) = 11 \<and> sorted_wrt (>) (map score (docs st)) \<longrightarrow>
                last (docs st) \<notin> set (map doc lb)
                \<and> (\<forall>d\<in>set (docs st). score (last (docs st)) \<le> score d))"
proof -
  let ?xs = "map toObject (docs st)"
  from assms(2) have "10 \<le> length ?xs" by simp
  from rank_scorelists_full[OF this]
  obtain lb where r: "rank_scorelists ?xs = Inr lb"
    and d: "map doc lb = map doc (js_sort by_score (take 10 ?xs))" by auto
  have resp: "fst (index_handler req st) = Json 200 (ScorelistsBody lb)"
    using assms(1) r by (simp add: index_handler_healthy)
  have d': "map doc lb = map doc (js_sort by_score (map toObject (take 10 (docs st))))"
    using d by (simp add: take_map)
  have st: "set (map doc lb) = set (take 10 (docs st))"
    unfolding d' by (simp add: js_sort_by_score image_image toObject_def)
  have "length (docs st) = 11 \<and> sorted_wrt (>) (map score (docs st)) \<longrightarrow>
          last (docs st) \<notin> set (map doc lb)
          \<and> (\<forall>d\<in>set (docs st). score (last (docs st)) \<le> score d)"
    unfolding st using descending_last_excluded[of "docs st"] by blast
  with resp d' show ?thesis by blast
qed

theorem index_truncates_before_sorting_witness:
  "OpFind \<notin> set (failing (store_of descending11)) \<and> 10 < length (docs (store_of descending11))
   \<and> length (docs (store_of descending11)) = 11
   \<and> sorted_wrt (>) (map score (docs (store_of descending11)))
   \<and> (\<exists>lb. fst (index_handler anonymous (store_of descending11)) = Json 200 (ScorelistsBody lb)
        \<and> map doc lb = map doc (js_sort by_score (map toObject (take 10 descending11)))
        \<and> new_doc 10 1 10 \<notin> set (map doc lb)
        \<and> (\<forall>d\<in>set descending11. 10 \<le> score d))"
proof -
  have h1: "OpFind \<notin> set (failing (store_of descending11))"
    by (simp add: store_of_def)
  have h2: "10 < length (docs (store_of descending11))"
    by (simp add: store_of_def descending11_def)
  have h3: "length (docs (store_of descending11)) = 11"
    by (simp add: store_of_def descending11_def)
  have h4: "sorted_wrt (>) (map score (docs (store_of descending11)))"
    by (simp add: sample_defs)
  have d: "docs (store_of descending11) = descending11"
    by (simp add: store_of_def)
  have l: "last descending11 = new_doc 10 1 10"
    by (simp add: descending11_def)
  have s: "score (new_doc 10 1 10) = 10"
    by (simp add: new_doc_def)
  from index_truncates_before_sorting[OF h1 h2, of anonymous] h3 h4
  show ?thesis unfolding d l s using h1 h2 h3 h4 unfolding d by blast
qed

text \<open>
  Claim C2 asks that the list operation does not fault on fewer than ten records. The
  placement loop always addresses ten positions: on the empty collection and on a
  collection of three records the handler ends in a TypeError passed to \<^verbatim>\<open>next\<close>,
  not in a response with the ranked records.
\<close>

theorem index_faults_below_ten:
  "fst (index_handler anonymous (store_of [])) = Next TypeError
   \<and> fst (index_handler anonymous (store_of three_docs)) = Next TypeError"
  by (simp add: index_defs sample_defs)

text \<open>
  Claim C3. When the scores of the stored records are pairwise distinct, the
  leaderboard the INDEX handler returns is in strictly ascending order of score, and
  the record at index \<open>i\<close> has placement \<open>i + 1\<close>.
\<close>

theorem index_sorted_placements:
  assumes "distinct (map score (docs st))"
    and "fst (index_handler req st) = Json 200 (ScorelistsBody lb)"
  shows "sorted_wrt (<) (map (\<lambda>p. score (doc p)) lb)
         \<and> (\<forall>i<length lb. placement (lb ! i) = Some (i + 1))"
proof -
  let ?xs = "map toObject (docs st)"
  let ?key = "\<lambda>p. score (doc p)"
  from index_handler_Json[OF assms(2)]
  have len: "10 \<le> length ?xs" and r: "rank_scorelists ?xs = Inr lb" by simp_all
  from rank_scorelists_full[OF len] r
  have l10: "length lb = 10"
    and d: "map doc lb = map doc (js_sort by_score (take 10 ?xs))"
    and pl: "\<forall>k<10. placement (lb ! k) = Some (k + 1)" by auto
  have "map ?key lb = map score (map doc lb)" by simp
  also have "\<dots> = map ?key (sort_key ?key (take 10 ?xs))"
    by (simp add: d js_sort_by_score)
  finally have sc: "map ?key lb = map ?key (sort_key ?key (take 10 ?xs))" .
  have "distinct (map ?key (take 10 ?xs))"
    using assms(1)
    by (simp add: take_map[symmetric] toObject_def comp_def distinct_take del: take_map)
  then have "distinct (map ?key (sort_key ?key (take 10 ?xs)))"
    by (simp add: distinct_map)
  then have "sorted_wrt (<) (map ?key lb)"
    unfolding sc strict_sorted_iff by simp
  with pl l10 show ?thesis by simp
qed

theorem index_sorted_placements_witness:
  "distinct (map score (docs (store_of descending11)))
   \<and> fst (index_handler anonymous (store_of descending11)) =
       Json 200 (ScorelistsBody leaderboard11)
   \<and> sorted_wrt (<) (map (\<lambda>p. score (doc p)) leaderboard11)
   \<and> placement (leaderboard11 ! 0) = Some 1
   \<and> placement (leaderboard11 ! 9) = Some 10"
proof -
  have h: "distinct (map score (docs (store_of descending11)))"
    by (simp add: sample_defs)
  have l: "0 < length leaderboard11" "9 < length leaderboard11"
    by (simp_all add: leaderboard11_def)
  from index_sorted_placements[OF h index_eval_descending11] l
  have "sorted_wrt (<) (map (\<lambda>p. score (doc p)) leaderboard11)"
    and "placement (leaderboard11 ! 0) = Some (0 + 1)"
    and "placement (leaderboard11 ! 9) = Some (9 + 1)"
    by blast+
  with h index_eval_descending11 show ?thesis by simp
qed

text \<open>
  Claim C4. Whatever the store returns, a leaderboard returned by the INDEX handler
  has at most ten records.
\<close>

theorem index_at_most_ten:
  assumes "fst (index_handler req st) = Json 200 (ScorelistsBody lb)"
  shows "length lb \<le> 10"
proof -
  from index_handler_Json[OF assms] rank_scorelists_full[of "map toObject (docs st)"]
  show ?thesis by auto
qed

theorem index_at_most_ten_witness:
  "fst (index_handler anonymous (store_of descending11)) =
     Json 200 (ScorelistsBody leaderboard11)
   \<and> length leaderboard11 \<le> 10"
  using index_at_most_ten[OF index_eval_descending11] index_eval_descending11 by blast

section \<open>Updates and deletions\<close>

lemma calls_issue: "calls (issue c st) = calls st @ [c]" "docs (issue c st) = docs st"
  "failing (issue c st) = failing st"
  by (simp_all add: issue_def)

lemma issued_same: "issued st st = []"
  by (simp add: issued_def)

text \<open>The store operations, one by one: what they add to the log and what they do to
  the records.\<close>

lemma findById_effect:
  "Scorelist_findById i st = (found, st1) \<Longrightarrow>
   st1 = issue (CallFindById i) st"
  by (auto simp: Scorelist_findById_def)

lemma patch_doc_keeps:
  "oid (patch_doc p x) = oid x"
  "map_of p ''owner'' = None \<Longrightarrow> owner (patch_doc p x) = owner x"
  by (simp_all add: patch_doc_def)

lemma map_of_delete_owner: "map_of (AList.delete ''owner'' p) ''owner'' = None"
  by (simp add: AList.delete_conv')

lemma updateOne_effect:
  assumes "updateOne d p st = (out, st1)"
  shows "calls st1 = calls st @ [CallUpdateOne (oid d) p]"
    and "map_of p ''owner'' = None \<Longrightarrow>
         map (\<lambda>d. (oid d, owner d)) (docs st1) = map (\<lambda>d. (oid d, owner d)) (docs st)"
proof -
  show "calls st1 = calls st @ [CallUpdateOne (oid d) p]"
    using assms by (auto simp: updateOne_def issue_def Let_def split: if_splits)
  assume "map_of p ''owner'' = None"
  then show "map (\<lambda>d. (oid d, owner d)) (docs st1) = map (\<lambda>d. (oid d, owner d)) (docs st)"
    using assms
    by (auto simp: updateOne_def issue_def Let_def patch_doc_keeps split: if_splits)
qed

lemma update_handler_cases:
  assumes "update_handler req st = (resp, st1)"
  shows "st1 = st
       \<or> (docs st1 = docs st \<and> calls st1 = calls st @ [CallFindById (params_id req)])
       \<or> (\<exists>p0 i. body req = Some p0
            \<and> calls st1 = calls st @ [CallFindById (params_id req),
                                        CallUpdateOne i (AList.delete ''owner'' p0)]
            \<and> map (\<lambda>d. (oid d, owner d)) (docs st1) = map (\<lambda>d. (oid d, owner d)) (docs st))"
proof (cases "body req")
  case None
  with assms show ?thesis by (simp add: update_handler_def)
next
  case (Some p0)
  obtain found st0 where f: "Scorelist_findById (params_id req) st = (found, st0)"
    by (cases "Scorelist_findById (params_id req) st")
  from findById_effect[OF f] have st0: "st0 = issue (CallFindById (params_id req)) st" .
  show ?thesis
  proof (cases "pthen found handle404")
    case (Inl e)
    with assms Some f have "st1 = st0"
      by (simp add: update_handler_def)
    with st0 show ?thesis
      by (simp add: calls_issue)
  next
    case (Inr d)
    show ?thesis
    proof (cases "requireOwnership req d")
      case (Inl e)
      with assms Some f Inr have "st1 = st0"
        by (simp add: update_handler_def)
      with st0 show ?thesis
        by (simp add: calls_issue)
    next
      case ok: (Inr u)
      obtain out st2 where u: "updateOne d (AList.delete ''owner'' p0) st0 = (out, st2)"
        by (cases "updateOne d (AList.delete ''owner'' p0) st0")
      have "st1 = st2"
        using assms Some f Inr ok u by (cases out) (simp_all add: update_handler_def)
      with updateOne_effect[OF u] map_of_delete_owner[of p0] st0 Some
      show ?thesis by (auto simp: calls_issue)
    qed
  qed
qed


lemma router_PATCH:
  "router au PATCH_scorelists_id req st =
     (case requireToken au req of
        Inl r \<Rightarrow> (r, st)
      | Inr req1 \<Rightarrow> update_handler (removeBlanks req1) st)"
  by (simp add: router_def split: sum.splits)

lemma issued_append: "calls st1 = calls st @ cs \<Longrightarrow> issued st st1 = cs"
  by (simp add: issued_def)

text \<open>
  Claim C5. Whatever an update request carries, every payload that the UPDATE route
  hands to \<^verbatim>\<open>updateOne\<close> has no \<^verbatim>\<open>owner\<close> key, and after the request every
  stored record has the owner it had before.
\<close>

theorem update_discards_owner:
  assumes "router au PATCH_scorelists_id req st = (resp, st1)"
  shows "(\<forall>i p. CallUpdateOne i p \<in> set (issued st st1) \<longrightarrow> map_of p ''owner'' = None)
         \<and> map (\<lambda>d. (oid d, owner d)) (docs st1) = map (\<lambda>d. (oid d, owner d)) (docs st)"
proof (cases "requireToken au req")
  case (Inl r)
  with assms have "st1 = st" by (simp add: router_PATCH)
  then show ?thesis by (simp add: issued_same)
next
  case (Inr req1)
  with assms have "update_handler (removeBlanks req1) st = (resp, st1)"
    by (simp add: router_PATCH)
  from update_handler_cases[OF this] show ?thesis
  proof (elim disjE exE conjE)
    assume "st1 = st"
    then show ?thesis by (simp add: issued_same)
  next
    assume "docs st1 = docs st"
      and "calls st1 = calls st @ [CallFindById (params_id (removeBlanks req1))]"
    then show ?thesis by (simp add: issued_append)
  next
    fix p0 i
    assume "calls st1 = calls st @ [CallFindById (params_id (removeBlanks req1)),
              CallUpdateOne i (AList.delete ''owner'' p0)]"
      and "map (\<lambda>d. (oid d, owner d)) (docs st1) = map (\<lambda>d. (oid d, owner d)) (docs st)"
    then show ?thesis by (simp add: issued_append map_of_delete_owner)
  qed
qed

lemma update_eval:
  "router sample_auth PATCH_scorelists_id (request_of ''token-alice'' 7 (Some owner_change))
     alices_store = (SendStatus 204, patched_store)"
  by (simp add: router_defs handler_defs store_defs request_defs new_doc_def)

theorem update_discards_owner_witness:
  "router sample_auth PATCH_scorelists_id (request_of ''token-alice'' 7 (Some owner_change))
     alices_store = (SendStatus 204, patched_store)
   \<and> map_of owner_change ''owner'' = Some (JId 2)
   \<and> issued alices_store patched_store = [CallFindById 7, CallUpdateOne 7 [(''score'', JNum 5)]]
   \<and> map_of [(''score'', JNum 5)] ''owner'' = None
   \<and> map (\<lambda>d. (oid d, owner d)) (docs patched_store) = [(7, 1)]"
proof -
  have i: "issued alices_store patched_store = [CallFindById 7, CallUpdateOne 7 [(''score'', JNum 5)]]"
    by (simp add: issued_def alices_store_def patched_store_def)
  have d: "map (\<lambda>d. (oid d, owner d)) (docs alices_store) = [(7, 1)]"
    by (simp add: alices_store_def new_doc_def)
  from update_discards_owner[OF update_eval]
  have "CallUpdateOne 7 [(''score'', JNum 5)] \<in> set (issued alices_store patched_store)
          \<longrightarrow> map_of [(''score'', JNum 5)] ''owner'' = None"
    and "map (\<lambda>d. (oid d, owner d)) (docs patched_store) = map (\<lambda>d. (oid d, owner d)) (docs alices_store)"
    by blast+
  with i d update_eval show ?thesis
    by (simp add: owner_change_def)
qed

text \<open>
  Claim C6. In the UPDATE and DESTROY handlers the existence guard and the ownership
  guard run before any write: when the looked-up record fails the first, or passes it
  and fails the second, the handler issues no create, update or delete call, leaves
  the stored records as they were and ends in the error handler, with the guard's
  error whenever the lookup itself succeeded.
\<close>

theorem guards_precede_writes:
  assumes "handle404 (find (\<lambda>d. oid d = params_id req) (docs st)) = Inl e
           \<or> (\<exists>d. handle404 (find (\<lambda>d. oid d = params_id req) (docs st)) = Inr d
                 \<and> requireOwnership req d = Inl e)"
  shows "docs (snd (update_handler req st)) = docs st
         \<and> filter is_write (issued st (snd (update_handler req st))) = []
         \<and> to_error_handler (fst (update_handler req st)) \<noteq> None
         \<and> docs (snd (destroy_handler req st)) = docs st
         \<and> filter is_write (issued st (snd (destroy_handler req st))) = []
         \<and> to_error_handler (fst (destroy_handler req st)) \<noteq> None
         \<and> (OpFindById \<notin> set (failing st) \<longrightarrow>
              fst (destroy_handler req st) = Next e
              \<and> (body req \<noteq> None \<longrightarrow> fst (update_handler req st) = Next e))"
proof -
  let ?st0 = "issue (CallFindById (params_id req)) st"
  define found where "found = fst (Scorelist_findById (params_id req) st)"
  have f: "Scorelist_findById (params_id req) st = (found, ?st0)"
    by (simp add: found_def Scorelist_findById_def)
  have i0: "issued st ?st0 = [CallFindById (params_id req)]"
    by (simp add: issued_def issue_def)
  have guard: "\<exists>e'. pthen found handle404 = Inl e'
                 \<or> (\<exists>d. pthen found handle404 = Inr d \<and> requireOwnership req d = Inl e')"
    using assms by (auto simp: found_def Scorelist_findById_def pthen_def)
  have guard_e: "OpFindById \<notin> set (failing st) \<Longrightarrow>
                 pthen found handle404 = Inl e
                 \<or> (\<exists>d. pthen found handle404 = Inr d \<and> requireOwnership req d = Inl e)"
    using assms by (auto simp: found_def Scorelist_findById_def pthen_def)
  have d: "\<exists>e'. destroy_handler req st = (Next e', ?st0)"
    using guard f by (auto simp: destroy_handler_def)
  have de: "OpFindById \<notin> set (failing st) \<Longrightarrow> destroy_handler req st = (Next e, ?st0)"
    using guard_e f by (auto simp: destroy_handler_def)
  have u: "update_handler req st = (Threw TypeError, st) \<or> (\<exists>e'. update_handler req st = (Next e', ?st0))"
    using guard f by (cases "body req") (auto simp: update_handler_def)
  have ue: "OpFindById \<notin> set (failing st) \<Longrightarrow> body req \<noteq> None \<Longrightarrow>
            update_handler req st = (Next e, ?st0)"
    using guard_e f by (cases "body req") (auto simp: update_handler_def)
  from d de u ue i0 show ?thesis
    by (auto simp: calls_issue issued_same)
qed


lemma forbidden_eval:
  "update_handler (authenticated 2 7 (Some owner_change)) alices_store =
     (Next Forbidden, looked_up_store 7)"
  "destroy_handler (authenticated 2 7 None) alices_store = (Next Forbidden, looked_up_store 7)"
  by (simp_all add: handler_defs store_defs request_defs new_doc_def)

lemma not_found_eval:
  "update_handler (authenticated 1 9 (Some owner_change)) alices_store =
     (Next NotFound, looked_up_store 9)"
  "destroy_handler (authenticated 1 9 None) alices_store = (Next NotFound, looked_up_store 9)"
  by (simp_all add: handler_defs store_defs request_defs new_doc_def)

theorem guards_precede_writes_witness:
  "handle404 (find (\<lambda>d. oid d = 7) (docs alices_store)) = Inr (new_doc 7 1 42)
   \<and> requireOwnership (authenticated 2 7 None) (new_doc 7 1 42) = Inl Forbidden
   \<and> OpFindById \<notin> set (failing alices_store)
   \<and> destroy_handler (authenticated 2 7 None) alices_store = (Next Forbidden, looked_up_store 7)
   \<and> docs (looked_up_store 7) = docs alices_store
   \<and> filter is_write (issued alices_store (looked_up_store 7)) = []
   \<and> to_error_handler (Next Forbidden) = Some Forbidden"
proof -
  let ?req = "authenticated 2 7 None"
  have p: "params_id ?req = 7"
    by (simp add: authenticated_def)
  have g1: "handle404 (find (\<lambda>d. oid d = 7) (docs alices_store)) = Inr (new_doc 7 1 42)"
    by (simp add: handle404_def alices_store_def new_doc_def)
  have g2: "requireOwnership ?req (new_doc 7 1 42) = Inl Forbidden"
    by (simp add: requireOwnership_def authenticated_def new_doc_def)
  have h: "OpFindById \<notin> set (failing alices_store)"
    by (simp add: alices_store_def)
  have "handle404 (find (\<lambda>d. oid d = params_id ?req) (docs alices_store)) = Inl Forbidden
        \<or> (\<exists>d. handle404 (find (\<lambda>d. oid d = params_id ?req) (docs alices_store)) = Inr d
              \<and> requireOwnership ?req d = Inl Forbidden)"
    unfolding p using g1 g2 by blast
  from guards_precede_writes[OF this] h
  have "docs (snd (destroy_handler ?req alices_store)) = docs alices_store"
    and "filter is_write (issued alices_store (snd (destroy_handler ?req alices_store))) = []"
    and "fst (destroy_handler ?req alices_store) = Next Forbidden"
    by blast+
  with g1 g2 h forbidden_eval(2) show ?thesis by simp
qed

section \<open>Failures and the error handler\<close>

text \<open>
  Claim C7 asks that no handler answers with a success status while a store or guard
  failure goes unreported, in particular that a failing \<^verbatim>\<open>deleteOne\<close> does not end
  in 204. In the DESTROY handler the promise of \<^verbatim>\<open>deleteOne\<close> is not returned into
  the chain: for the owner's request on a store whose deletion fails, the deletion is
  rejected, the record stays, and the response is 204 with nothing passed to the
  error handler.
\<close>

theorem destroy_swallows_delete_failure:
  "deleteOne (new_doc 7 1 42) (issue (CallFindById 7) (failing_store OpDeleteOne)) =
     (Inl (StoreError OpDeleteOne), undeleted_store)
   \<and> router sample_auth DELETE_scorelists_id (request_of ''token-alice'' 7 None)
       (failing_store OpDeleteOne) = (SendStatus 204, undeleted_store)
   \<and> to_error_handler (SendStatus 204) = None
   \<and> docs undeleted_store = [new_doc 7 1 42]"
  by (simp add: router_defs handler_defs store_defs request_defs new_doc_def)

text \<open>The other store failures do reach \<^verbatim>\<open>.catch(next)\<close>.\<close>

lemma failures_surface_elsewhere:
  "OpFind \<in> set (failing st) \<Longrightarrow> fst (index_handler req st) = Next (StoreError OpFind)"
  "OpFindById \<in> set (failing st) \<Longrightarrow> fst (show_handler req st) = Next (StoreError OpFindById)"
  "OpCreate \<in> set (failing st) \<Longrightarrow> body req = Some p \<Longrightarrow> user req = Some u \<Longrightarrow>
     fst (create_handler req st) = Next (StoreError OpCreate)"
  "OpFindById \<in> set (failing st) \<Longrightarrow> body req = Some p \<Longrightarrow>
     fst (update_handler req st) = Next (StoreError OpFindById)"
  "OpUpdateOne \<in> set (failing st) \<Longrightarrow> OpFindById \<notin> set (failing st) \<Longrightarrow> body req = Some p \<Longrightarrow>
     find (\<lambda>d. oid d = params_id req) (docs st) = Some d \<Longrightarrow> user req = Some (owner d) \<Longrightarrow>
     fst (update_handler req st) = Next (StoreError OpUpdateOne)"
  "OpFindById \<in> set (failing st) \<Longrightarrow> fst (destroy_handler req st) = Next (StoreError OpFindById)"
  by (simp_all add: handler_defs store_defs Let_def)

section \<open>Routes, tokens and the request body\<close>

lemma router_POST:
  "router au POST_scorelists req st =
     (case requireToken au req of
        Inl r \<Rightarrow> (r, st)
      | Inr req1 \<Rightarrow> create_handler req1 st)"
  by (simp add: router_def split: sum.splits)

lemma requireToken_valid:
  "token req = Some t \<Longrightarrow> au t = Some u \<Longrightarrow> requireToken au req = Inr (req\<lparr>user := Some u\<rparr>)"
  by (simp add: requireToken_def)

lemma requireToken_invalid:
  "token req = None \<or> (\<exists>t. token req = Some t \<and> au t = None) \<Longrightarrow>
   requireToken au req = Inl (SendStatus 401)"
  by (auto simp: requireToken_def)

lemma router_protected_401:
  "r \<noteq> GET_scorelists \<Longrightarrow> requireToken au req = Inl resp \<Longrightarrow> router au r req st = (resp, st)"
  by (cases r) (simp_all add: router_def)

lemma router_GET_id:
  "router au GET_scorelists_id req st =
     (case requireToken au req of
        Inl r \<Rightarrow> (r, st)
      | Inr req1 \<Rightarrow> show_handler req1 st)"
  by (simp add: router_def split: sum.splits)

text \<open>
  Claim C8 says that every create request of an authenticated caller is answered 201
  with the created record. It is not: a request without the \<^verbatim>\<open>scorelist\<close> envelope
  throws before the store is called, and a creation the store rejects goes to the
  error handler.
\<close>

theorem create_not_always_201:
  "sample_auth ''token-alice'' = Some 1
   \<and> router sample_auth POST_scorelists (request_of ''token-alice'' 0 None) alices_store =
       (Threw TypeError, alices_store)
   \<and> router sample_auth POST_scorelists (request_of ''token-alice'' 0 (Some owner_change))
       (failing_store OpCreate) = (Next (StoreError OpCreate), uncreated_store)"
  by (simp add: router_defs handler_defs store_defs request_defs new_doc_def)

text \<open>
  Claim C8, amended. For a create request of an authenticated caller whose body has
  the \<^verbatim>\<open>scorelist\<close> envelope, the one call the CREATE route issues is a creation
  with the payload whose \<^verbatim>\<open>owner\<close> is the caller's id, whatever owner the payload
  named; and whenever that creation succeeds, the response is 201 with the created
  record, which is stored and whose owner is the caller.
\<close>

theorem create_owner_is_caller:
  assumes "token req = Some t" and "au t = Some u" and "body req = Some p"
  shows "issued st (snd (router au POST_scorelists req st)) =
           [CallCreate (AList.update ''owner'' (JId u) p)]
         \<and> map_of (AList.update ''owner'' (JId u) p) ''owner'' = Some (JId u)
         \<and> (\<forall>created st1.
               Scorelist_create (AList.update ''owner'' (JId u) p) st = (Inr created, st1) \<longrightarrow>
               router au POST_scorelists req st =
                 (Json 201 (ScorelistBody (toObject created)), st1)
               \<and> owner created = u \<and> created \<in> set (docs st1))"
proof -
  let ?p = "AList.update ''owner'' (JId u) p"
  have r: "router au POST_scorelists req st =
             (case Scorelist_create ?p st of
                (Inr created, st1) \<Rightarrow> (Json 201 (ScorelistBody (toObject created)), st1)
              | (Inl e, st1) \<Rightarrow> (Next e, st1))"
    using assms by (simp add: router_POST requireToken_valid create_handler_def)
  have o: "map_of ?p ''owner'' = Some (JId u)"
    by (simp add: AList.update_conv')
  obtain out st1 where c: "Scorelist_create ?p st = (out, st1)"
    by (cases "Scorelist_create ?p st")
  have calls: "calls st1 = calls st @ [CallCreate ?p]"
    using c by (auto simp: Scorelist_create_def issue_def Let_def split: if_splits option.splits)
  have "snd (router au POST_scorelists req st) = st1"
    using r c by (cases out) simp_all
  then have i: "issued st (snd (router au POST_scorelists req st)) = [CallCreate ?p]"
    using calls by (simp add: issued_def)
  have "\<forall>created st2. Scorelist_create ?p st = (Inr created, st2) \<longrightarrow>
          router au POST_scorelists req st = (Json 201 (ScorelistBody (toObject created)), st2)
          \<and> owner created = u \<and> created \<in> set (docs st2)"
  proof (intro allI impI)
    fix created st2
    assume a: "Scorelist_create ?p st = (Inr created, st2)"
    then have "router au POST_scorelists req st = (Json 201 (ScorelistBody (toObject created)), st2)"
      using r by simp
    moreover from a o have "owner created = u \<and> created \<in> set (docs st2)"
      by (auto simp: Scorelist_create_def cast_new_def issue_def Let_def
          split: if_splits option.splits jval.splits)
    ultimately show "router au POST_scorelists req st =
        (Json 201 (ScorelistBody (toObject created)), st2)
        \<and> owner created = u \<and> created \<in> set (docs st2)" by simp
  qed
  with i o show ?thesis by blast
qed

lemma create_eval:
  "Scorelist_create (AList.update ''owner'' (JId 1) owner_change) alices_store =
     (Inr (new_doc 8 1 5), created_store)"
  by (simp add: store_defs request_defs new_doc_def)

theorem create_owner_is_caller_witness:
  "token (request_of ''token-alice'' 0 (Some owner_change)) = Some ''token-alice''
   \<and> sample_auth ''token-alice'' = Some 1
   \<and> body (request_of ''token-alice'' 0 (Some owner_change)) = Some owner_change
   \<and> map_of owner_change ''owner'' = Some (JId 2)
   \<and> router sample_auth POST_scorelists (request_of ''token-alice'' 0 (Some owner_change))
       alices_store = (Json 201 (ScorelistBody (toObject (new_doc 8 1 5))), created_store)
   \<and> owner (new_doc 8 1 5) = 1
   \<and> new_doc 8 1 5 \<in> set (docs created_store)"
proof -
  let ?req = "request_of ''token-alice'' 0 (Some owner_change)"
  have h1: "token ?req = Some ''token-alice''" and h3: "body ?req = Some owner_change"
    by (simp_all add: request_of_def)
  have h2: "sample_auth ''token-alice'' = Some 1"
    by (simp add: sample_auth_def)
  have o: "map_of owner_change ''owner'' = Some (JId 2)"
    by (simp add: owner_change_def)
  from create_owner_is_caller[of ?req "''token-alice''" sample_auth 1 owner_change alices_store,
      OF h1 h2 h3] create_eval
  have "router sample_auth POST_scorelists ?req alices_store =
          (Json 201 (ScorelistBody (toObject (new_doc 8 1 5))), created_store)
        \<and> owner (new_doc 8 1 5) = 1 \<and> new_doc 8 1 5 \<in> set (docs created_store)"
    by blast
  with h1 h2 h3 o show ?thesis by blast
qed


text \<open>
  Claim C9. The INDEX route has no middleware in front of it: it runs the handler
  whatever the request's credentials, and the handler does not look at the request.
  Each of the four other routes answers 401 without running its handler when the
  request has no token or a token the auth provider does not know. The SHOW route,
  for a caller with a valid token, returns the stored record with the requested id
  whoever owns it.
\<close>

theorem token_requirements:
  "router au GET_scorelists req st = index_handler req st
   \<and> index_handler req st = index_handler anonymous st
   \<and> (r \<noteq> GET_scorelists \<longrightarrow>
        (token req = None \<or> (\<exists>t. token req = Some t \<and> au t = None)) \<longrightarrow>
        router au r req st = (SendStatus 401, st))
   \<and> (token req = Some t \<and> au t = Some u \<and> OpFindById \<notin> set (failing st)
        \<and> find (\<lambda>x. oid x = params_id req) (docs st) = Some d \<longrightarrow>
        fst (router au GET_scorelists_id req st) = Json 200 (ScorelistBody (toObject d)))"
proof -
  have a: "router au GET_scorelists req st = index_handler req st"
    by (simp add: router_def)
  have b: "index_handler req st = index_handler anonymous st"
    by (simp add: index_handler_def)
  have c: "r \<noteq> GET_scorelists \<longrightarrow>
        (token req = None \<or> (\<exists>t. token req = Some t \<and> au t = None)) \<longrightarrow>
        router au r req st = (SendStatus 401, st)"
    using router_protected_401[of r au req "SendStatus 401" st] requireToken_invalid[of req au]
    by blast
  have d: "token req = Some t \<and> au t = Some u \<and> OpFindById \<notin> set (failing st)
        \<and> find (\<lambda>x. oid x = params_id req) (docs st) = Some d \<longrightarrow>
        fst (router au GET_scorelists_id req st) = Json 200 (ScorelistBody (toObject d))"
    by (auto simp: router_GET_id requireToken_valid show_handler_def Scorelist_findById_def
        pthen_def handle404_def)
  from a b c d show ?thesis by blast
qed

theorem token_requirements_witness:
  "token anonymous = None
   \<and> fst (router sample_auth GET_scorelists anonymous (store_of descending11)) =
       Json 200 (ScorelistsBody leaderboard11)
   \<and> router sample_auth DELETE_scorelists_id anonymous alices_store =
       (SendStatus 401, alices_store)
   \<and> sample_auth ''token-bob'' = Some 2
   \<and> owner (new_doc 7 1 42) = 1
   \<and> fst (router sample_auth GET_scorelists_id (request_of ''token-bob'' 7 None) alices_store) =
       Json 200 (ScorelistBody (toObject (new_doc 7 1 42)))"
proof -
  have t0: "token anonymous = None"
    by (simp add: anonymous_def)
  have bob: "sample_auth ''token-bob'' = Some 2"
    by (simp add: sample_auth_def)
  have ow: "owner (new_doc 7 1 42) = 1"
    by (simp add: new_doc_def)
  from token_requirements[of sample_auth anonymous "store_of descending11"]
    index_eval_descending11
  have i: "fst (router sample_auth GET_scorelists anonymous (store_of descending11)) =
       Json 200 (ScorelistsBody leaderboard11)"
    by simp
  from token_requirements[of sample_auth anonymous alices_store DELETE_scorelists_id] t0
  have u: "router sample_auth DELETE_scorelists_id anonymous alices_store =
       (SendStatus 401, alices_store)"
    by simp
  let ?req = "request_of ''token-bob'' 7 None"
  have "token ?req = Some ''token-bob'' \<and> sample_auth ''token-bob'' = Some 2
        \<and> OpFindById \<notin> set (failing alices_store)
        \<and> find (\<lambda>x. oid x = params_id ?req) (docs alices_store) = Some (new_doc 7 1 42)"
    using bob by (simp add: request_of_def alices_store_def new_doc_def)
  with token_requirements[of sample_auth ?req alices_store _ "''token-bob''" 2 "new_doc 7 1 42"]
  have s: "fst (router sample_auth GET_scorelists_id ?req alices_store) =
       Json 200 (ScorelistBody (toObject (new_doc 7 1 42)))"
    by blast
  from t0 i u bob ow s show ?thesis by blast
qed

text \<open>
  Claim C10. When the body of a request has no \<^verbatim>\<open>scorelist\<close> envelope, the CREATE
  and UPDATE handlers throw a TypeError before they call the store: the store is as it
  was, no call has been issued, and the error goes to the error handler. The same
  holds for the two routes when the caller's token is valid.
\<close>

theorem missing_envelope_faults:
  assumes "body req = None"
  shows "create_handler req st = (Threw TypeError, st)
         \<and> update_handler req st = (Threw TypeError, st)
         \<and> to_error_handler (fst (create_handler req st)) = Some TypeError
         \<and> to_error_handler (fst (update_handler req st)) = Some TypeError
         \<and> issued st (snd (create_handler req st)) = []
         \<and> issued st (snd (update_handler req st)) = []
         \<and> (token req = Some t \<and> au t = Some u \<longrightarrow>
              router au POST_scorelists req st = (Threw TypeError, st)
              \<and> router au PATCH_scorelists_id req st = (Threw TypeError, st))"
proof -
  have c: "create_handler req st = (Threw TypeError, st)"
    using assms by (simp add: create_handler_def)
  have u: "update_handler req st = (Threw TypeError, st)"
    using assms by (simp add: update_handler_def)
  have r: "token req = Some t \<and> au t = Some u \<longrightarrow>
              router au POST_scorelists req st = (Threw TypeError, st)
              \<and> router au PATCH_scorelists_id req st = (Threw TypeError, st)"
    using assms
    by (simp add: router_POST router_PATCH requireToken_valid create_handler_def
        update_handler_def removeBlanks_def)
  from c u r show ?thesis by (simp add: issued_same)
qed

theorem missing_envelope_faults_witness:
  "body (request_of ''token-alice'' 7 None) = None
   \<and> token (request_of ''token-alice'' 7 None) = Some ''token-alice''
   \<and> sample_auth ''token-alice'' = Some 1
   \<and> create_handler (request_of ''token-alice'' 7 None) alices_store =
       (Threw TypeError, alices_store)
   \<and> update_handler (request_of ''token-alice'' 7 None) alices_store =
       (Threw TypeError, alices_store)
   \<and> router sample_auth POST_scorelists (request_of ''token-alice'' 7 None) alices_store =
       (Threw TypeError, alices_store)
   \<and> router sample_auth PATCH_scorelists_id (request_of ''token-alice'' 7 None) alices_store =
       (Threw TypeError, alices_store)"
proof -
  let ?req = "request_of ''token-alice'' 7 None"
  have h: "body ?req = None" and t: "token ?req = Some ''token-alice''"
    by (simp_all add: request_of_def)
  have a: "sample_auth ''token-alice'' = Some 1"
    by (simp add: sample_auth_def)
  from missing_envelope_faults[OF h, of alices_store "''token-alice''" sample_auth 1] t a h
  show ?thesis by blast
qed


end
